theory Spec2Isabelle
  imports Complex_Main "HOL-Library.AList" "HOL-Library.List_Lexorder" "HOL-Library.Option_ord"
begin

section \<open>Text\<close>

text \<open>
  A Python \<open>str\<close> is a sequence of Unicode code points; it is modelled as a list of
  natural numbers, so that \<open>length\<close>, slicing and \<open>in\<close> count what Python counts.
\<close>

type_synonym ustr = "nat list"

subsection \<open>Substring test, lower-casing, path suffix\<close>

text \<open>\<open>sub in s\<close> on strings: \<open>sub\<close> occurs in \<open>s\<close> as a contiguous run.\<close>

fun py_in :: "ustr \<Rightarrow> ustr \<Rightarrow> bool" where
  "py_in sub [] = (sub = [])"
| "py_in sub (c # cs) = (take (length sub) (c # cs) = sub \<or> py_in sub cs)"

text \<open>
  \<open>str.lower()\<close>, on the letters that decide a comparison with \<open>.csv\<close> or \<open>.xlsx\<close>:
  \<open>A\<close> .. \<open>Z\<close> go to \<open>a\<close> .. \<open>z\<close>. No code point outside ASCII lower-cases to one of
  \<open>. c s v x l\<close>, so the comparison is decided as Python decides it.
\<close>

definition lower :: "ustr \<Rightarrow> ustr" where
  "lower s = map (\<lambda>c. if 65 \<le> c \<and> c \<le> 90 then c + 32 else c) s"

text \<open>\<open>str.rfind(c)\<close>: the last index of \<open>c\<close>, \<open>None\<close> for Python's \<open>-1\<close>.\<close>

fun rfind :: "nat \<Rightarrow> ustr \<Rightarrow> nat option" where
  "rfind c [] = None"
| "rfind c (x # xs) =
     (case rfind c xs of
        Some i \<Rightarrow> Some (Suc i)
      | None \<Rightarrow> if x = c then Some 0 else None)"

text \<open>
  \<open>Path.suffix\<close> of pathlib: the name from its last dot on, when that dot is neither the
  first nor the last character (\<open>0 < i < len(name) - 1\<close>), and the empty string otherwise.
\<close>

definition suffix :: "ustr \<Rightarrow> ustr" where
  "suffix nm =
     (case rfind 46 nm of
        None \<Rightarrow> []
      | Some i \<Rightarrow> if 0 < i \<and> i + 1 < length nm then drop i nm else [])"

definition dot_csv :: ustr where
  "dot_csv = [46, 99, 115, 118]"

definition dot_xlsx :: ustr where
  "dot_xlsx = [46, 120, 108, 115, 120]"

subsection \<open>Unicode normalization\<close>

text \<open>
  \<open>normalize\<close> of the source is \<open>unicodedata.normalize("NFC", text)\<close>, a function of
  Python's standard library. The loader uses it for one thing: to test whether the
  normalized name of a file contains the normalized name of a school, and the four school
  names are Hangul syllables. The model is the Hangul part of NFC as the Unicode Standard
  (section 3.12) and UAX 15 define it: a syllable decomposes into its conjoining jamo by
  arithmetic on the code point, all these code points have combining class 0 (nothing is
  reordered), and a jamo composes only with its immediate predecessor. Every other code
  point is left in place. The library also decomposes, reorders and composes code points
  outside Hangul, by tables that are not part of the repository; it never turns such a
  code point into a Hangul one or removes a code point that stands between two Hangul
  ones, so an occurrence of a school name in the normalized name is decided by the Hangul
  part alone.
\<close>

definition is_L :: "nat \<Rightarrow> bool" where
  "is_L c = (4352 \<le> c \<and> c < 4371)"

definition is_V :: "nat \<Rightarrow> bool" where
  "is_V c = (4449 \<le> c \<and> c < 4470)"

definition is_T :: "nat \<Rightarrow> bool" where
  "is_T c = (4519 < c \<and> c < 4547)"

definition is_S :: "nat \<Rightarrow> bool" where
  "is_S c = (44032 \<le> c \<and> c < 55204)"

text \<open>
  Canonical decomposition of one code point: a syllable \<open>S\<close> with index
  \<open>s = S - SBase\<close> becomes \<open>L V\<close> or \<open>L V T\<close>, with \<open>L = LBase + s div 588\<close>,
  \<open>V = VBase + (s mod 588) div 28\<close>, \<open>T = TBase + s mod 28\<close>.
\<close>

definition decompose_char :: "nat \<Rightarrow> ustr" where
  "decompose_char c =
     (if is_S c then
        (let s = c - 44032;
             l = 4352 + s div 588;
             v = 4449 + (s mod 588) div 28;
             t = 4519 + s mod 28
         in if s mod 28 = 0 then [l, v] else [l, v, t])
      else [c])"

definition nfd :: "ustr \<Rightarrow> ustr" where
  "nfd s = concat (map decompose_char s)"

definition compose_LV :: "nat \<Rightarrow> nat \<Rightarrow> nat" where
  "compose_LV l v = 44032 + ((l - 4352) * 21 + (v - 4449)) * 28"

text \<open>
  Canonical composition of a decomposed text: a leading consonant followed by a vowel
  becomes the \<open>LV\<close> syllable, and takes a directly following trailing consonant with it.
\<close>

fun compose :: "ustr \<Rightarrow> ustr" where
  "compose (l # v # t # cs) =
     (if is_L l \<and> is_V v then
        (if is_T t then (compose_LV l v + (t - 4519)) # compose cs
         else compose_LV l v # compose (t # cs))
      else l # compose (v # t # cs))"
| "compose [l, v] = (if is_L l \<and> is_V v then [compose_LV l v] else [l, v])"
| "compose [c] = [c]"
| "compose [] = []"

definition nfc :: "ustr \<Rightarrow> ustr" where
  "nfc s = compose (nfd s)"

definition normalize :: "ustr \<Rightarrow> ustr" where
  "normalize text = nfc text"

section \<open>Configuration\<close>

text \<open>
  \<open>SCHOOL_EC\<close>: the four school names with their target EC, in the order the dictionary
  literal declares them (a Python dict iterates in insertion order).
\<close>

definition songdo :: ustr where "songdo = [49569, 46020, 44256]"
definition haneul :: ustr where "haneul = [54616, 45720, 44256]"
definition ara :: ustr where "ara = [50500, 46972, 44256]"
definition dongsan :: ustr where "dongsan = [46041, 49328, 44256]"

definition SCHOOL_EC :: "(ustr \<times> real) list" where
  "SCHOOL_EC = [(songdo, 1), (haneul, 2), (ara, 4), (dongsan, 8)]"

section \<open>Tables\<close>

text \<open>
  The rows of the two inputs, with the columns the dashboard reads. Numeric columns are
  \<open>float64\<close> in pandas; they are modelled as real numbers (no rounding, no missing
  cells). A row tagged by the loader carries the added column \<open>hakgyo\<close> (the source's
  column named with the Korean word for school), which holds the tag.
\<close>

record reading =
  time :: ustr
  temperature :: real
  humidity :: real
  ph :: real
  ec :: real

record measurement =
  leaves :: real
  shoot :: real
  weight :: real

record 'r tagged =
  hakgyo :: ustr
  cells :: 'r

text \<open>\<open>df[hakgyo] = s\<close>: every row of the table gets the tag \<open>s\<close>.\<close>

definition stamp :: "ustr \<Rightarrow> 'r list \<Rightarrow> 'r tagged list" where
  "stamp s df = map (\<lambda>r. \<lparr>hakgyo = s, cells = r\<rparr>) df"

text \<open>
  A \<open>DataFrame\<close> of growth records: \<open>EmptyFrame\<close> is \<open>pd.DataFrame()\<close>, without rows and
  without columns; \<open>Frame rows\<close> has the spreadsheet's columns and the tag.
\<close>

datatype 'r frame = EmptyFrame | Frame "'r list"

fun empty :: "'r frame \<Rightarrow> bool" where
  "empty EmptyFrame = True"
| "empty (Frame rows) = (rows = [])"

section \<open>The data directory\<close>

datatype py_error = NotADirectoryError | ReadError | ValueError | KeyError

text \<open>
  An entry of the data directory: its name, what \<open>pd.read_csv\<close> gives on it (a table or
  the exception raised), and what \<open>pd.ExcelFile\<close> gives on it: the exception raised, or
  the sheets in the file's order, each with its name and what \<open>xls.parse\<close> gives.
\<close>

record entry =
  name :: ustr
  read_csv :: "py_error + reading list"
  ExcelFile :: "py_error + (ustr \<times> (py_error + measurement list)) list"

text \<open>
  \<open>DATA_DIR\<close>: absent (\<open>exists()\<close> is false), present but not a directory (\<open>iterdir()\<close>
  raises), or a directory with its entries in the order \<open>iterdir()\<close> yields them.
\<close>

datatype path = Missing | NotDirectory | Directory "entry list"

text \<open>The two texts given to \<open>st.error\<close>.\<close>

datatype message = DataDirNotFound | XlsxNotFound

section \<open>Loading\<close>

subsection \<open>Environment logs\<close>

text \<open>
  The value \<open>data\<close> of \<open>load_environment_data\<close>: a Python dict from school name to the
  tagged table, as an association list in insertion order. \<open>data[school] = df\<close> is
  \<open>AList.update\<close>: a key already present keeps its place and gets the new value, a new
  key goes to the end.
\<close>

type_synonym env_data = "(ustr \<times> reading tagged list) list"

text \<open>
  The inner loop \<open>for school in SCHOOL_EC.keys()\<close> on one file whose normalized name is
  \<open>nm\<close>. The loop has no \<open>break\<close>: every school whose normalized name occurs in \<open>nm\<close>
  reads the file again, tags the table and stores it.
\<close>

fun match_schools :: "entry \<Rightarrow> ustr \<Rightarrow> ustr list \<Rightarrow> env_data \<Rightarrow> py_error + env_data" where
  "match_schools file nm [] data = Inr data"
| "match_schools file nm (school # rest) data =
     (if py_in (normalize school) nm then
        (case read_csv file of
           Inl e \<Rightarrow> Inl e
         | Inr df \<Rightarrow> match_schools file nm rest (AList.update school (stamp school df) data))
      else match_schools file nm rest data)"

text \<open>The outer loop \<open>for file in DATA_DIR.iterdir()\<close>.\<close>

fun scan_csv :: "entry list \<Rightarrow> env_data \<Rightarrow> py_error + env_data" where
  "scan_csv [] data = Inr data"
| "scan_csv (file # files) data =
     (if lower (suffix (name file)) \<noteq> dot_csv then scan_csv files data
      else
        (case match_schools file (normalize (name file)) (map fst SCHOOL_EC) data of
           Inl e \<Rightarrow> Inl e
         | Inr data' \<Rightarrow> scan_csv files data'))"

text \<open>
  \<open>load_environment_data\<close> returns the messages it gave to \<open>st.error\<close> and the dict, or
  the exception that escapes it.
\<close>

definition load_environment_data :: "path \<Rightarrow> py_error + message list \<times> env_data" where
  "load_environment_data DATA_DIR =
     (case DATA_DIR of
        Missing \<Rightarrow> Inr ([DataDirNotFound], [])
      | NotDirectory \<Rightarrow> Inl NotADirectoryError
      | Directory files \<Rightarrow>
          (case scan_csv files [] of
             Inl e \<Rightarrow> Inl e
           | Inr data \<Rightarrow> Inr ([], data)))"

subsection \<open>Growth records\<close>

text \<open>The first entry with the suffix \<open>.xlsx\<close> (the loop with \<open>break\<close>).\<close>

fun first_xlsx :: "entry list \<Rightarrow> entry option" where
  "first_xlsx [] = None"
| "first_xlsx (file # files) =
     (if lower (suffix (name file)) = dot_xlsx then Some file else first_xlsx files)"

text \<open>
  The loop over \<open>xls.sheet_names\<close>: each sheet is parsed and tagged with the sheet's own
  name, whatever that name is.
\<close>

fun parse_sheets ::
  "(ustr \<times> (py_error + measurement list)) list \<Rightarrow> py_error + measurement tagged list list" where
  "parse_sheets [] = Inr []"
| "parse_sheets ((sheet, parsed) # rest) =
     (case parsed of
        Inl e \<Rightarrow> Inl e
      | Inr df \<Rightarrow>
          (case parse_sheets rest of
             Inl e \<Rightarrow> Inl e
           | Inr frames \<Rightarrow> Inr (stamp sheet df # frames)))"

text \<open>\<open>pd.concat(frames, ignore_index=True)\<close>: \<open>ValueError\<close> when there is nothing to concatenate.\<close>

definition pd_concat :: "'r list list \<Rightarrow> py_error + 'r frame" where
  "pd_concat frames = (if frames = [] then Inl ValueError else Inr (Frame (concat frames)))"

definition load_growth_data :: "path \<Rightarrow> py_error + message list \<times> measurement tagged frame" where
  "load_growth_data DATA_DIR =
     (case DATA_DIR of
        Missing \<Rightarrow> Inr ([DataDirNotFound], EmptyFrame)
      | NotDirectory \<Rightarrow> Inl NotADirectoryError
      | Directory files \<Rightarrow>
          (case first_xlsx files of
             None \<Rightarrow> Inr ([XlsxNotFound], EmptyFrame)
           | Some xlsx_file \<Rightarrow>
               (case ExcelFile xlsx_file of
                  Inl e \<Rightarrow> Inl e
                | Inr sheets \<Rightarrow>
                    (case parse_sheets sheets of
                       Inl e \<Rightarrow> Inl e
                     | Inr frames \<Rightarrow>
                         (case pd_concat frames of
                            Inl e \<Rightarrow> Inl e
                          | Inr df \<Rightarrow> Inr ([], df))))))"

section \<open>Aggregation\<close>

text \<open>
  The means are computed by pandas (\<open>groupby(...).mean()\<close>), in \<open>float64\<close> arithmetic:
  library code, whose rounding, overflow and order of summation are not the repository's.
  The functions below therefore take \<open>mean\<close> as a parameter: the function that gives, for
  the cells of one column in the rows of one group, in row order, the \<open>float64\<close> result.
  That result is \<open>Some v\<close> for a number or an infinity \<open>v\<close>, in any linearly ordered type
  of such values, and \<open>None\<close> for \<open>NaN\<close>. The cells themselves hold numbers.
\<close>

subsection \<open>Environment means per school\<close>

text \<open>\<open>env_all = pd.concat(env_data.values(), ignore_index=True)\<close>.\<close>

definition env_all :: "env_data \<Rightarrow> py_error + reading tagged frame" where
  "env_all data = pd_concat (map snd data)"


subsection \<open>Best EC by mean fresh weight\<close>

text \<open>
  \<open>growth_df["EC"] = growth_df[hakgyo].map(SCHOOL_EC)\<close>: the target EC of the row's
  school, and \<open>NaN\<close> (here \<open>None\<close>) when the school is not a key of \<open>SCHOOL_EC\<close>.
\<close>

definition EC :: "'r tagged \<Rightarrow> real option" where
  "EC r = map_of SCHOOL_EC (hakgyo r)"

text \<open>
  \<open>mean_weight = growth_df.groupby("EC")[weight].mean().reset_index()\<close>: \<open>groupby\<close> drops
  the rows whose key is \<open>NaN\<close> and sorts the keys in ascending order.
\<close>

definition mean_weight ::
  "(real list \<Rightarrow> 'm option) \<Rightarrow> measurement tagged list \<Rightarrow> (real \<times> 'm option) list" where
  "mean_weight mean rows =
     map (\<lambda>e. (e, mean (map (\<lambda>r. weight (cells r)) (filter (\<lambda>r. EC r = Some e) rows))))
         (sort (remdups (List.map_filter EC rows)))"

text \<open>
  The position of the first greatest entry of a list (0 for the empty list). Among
  \<open>float64\<close> results \<open>NaN\<close> (\<open>None\<close>) is ordered below every number, so that the first
  greatest entry is the first greatest number whenever there is a number.
\<close>

fun first_max :: "'a::linorder list \<Rightarrow> nat" where
  "first_max [] = 0"
| "first_max (x # xs) = (if xs \<noteq> [] \<and> x < xs ! first_max xs then Suc (first_max xs) else 0)"

text \<open>
  \<open>Series.idxmax()\<close> on the default index (\<open>skipna=True\<close>): the position of the first
  occurrence of the greatest number, \<open>NaN\<close> entries being skipped. On an empty series it
  raises \<open>ValueError\<close>. On a series of \<open>NaN\<close> only no label results: pandas raises
  \<open>ValueError\<close> (older versions return \<open>NaN\<close>, and the lookup \<open>.loc\<close> with it raises).
\<close>

definition idxmax :: "'m::linorder option list \<Rightarrow> py_error + nat" where
  "idxmax xs =
     (if xs = [] then Inl ValueError
      else if xs ! first_max xs = None then Inl ValueError
      else Inr (first_max xs))"

text \<open>
  \<open>best_ec = mean_weight.loc[mean_weight[weight].idxmax(), "EC"]\<close>. On \<open>pd.DataFrame()\<close>
  the column lookup \<open>growth_df[hakgyo]\<close> already raises \<open>KeyError\<close>.
\<close>

fun best_ec ::
  "(real list \<Rightarrow> 'm::linorder option) \<Rightarrow> measurement tagged frame \<Rightarrow> py_error + real" where
  "best_ec mean EmptyFrame = Inl KeyError"
| "best_ec mean (Frame rows) =
     (case idxmax (map snd (mean_weight mean rows)) of
        Inl e \<Rightarrow> Inl e
      | Inr i \<Rightarrow> Inr (fst (mean_weight mean rows ! i)))"

section \<open>The script\<close>

text \<open>
  The run of the script from the loaded data to \<open>best_ec\<close>. After loading it stops when
  there is no environment table or no growth row (\<open>if not env_data or growth_df.empty:
  st.stop()\<close>). In the environment tab, a selected school (\<open>school_option\<close>, \<open>None\<close> for
  the choice of all schools) is looked up in \<open>env_data\<close>, which raises \<open>KeyError\<close> when
  that school has no table. The growth tab then computes \<open>best_ec\<close>.
\<close>

datatype 'a run = Stopped | Raised py_error | Returned 'a

definition script ::
  "(real list \<Rightarrow> 'm::linorder option) \<Rightarrow> ustr option \<Rightarrow> env_data \<Rightarrow>
   measurement tagged frame \<Rightarrow> real run" where
  "script mean school_option data growth_df =
     (if data = [] \<or> empty growth_df then Stopped
      else if (case school_option of None \<Rightarrow> False | Some s \<Rightarrow> map_of data s = None)
        then Raised KeyError
      else (case best_ec mean growth_df of Inl e \<Rightarrow> Raised e | Inr b \<Rightarrow> Returned b))"

section \<open>Notions used in the statements\<close>



text \<open>
  \<open>names k file\<close>: the loader takes \<open>file\<close> for school \<open>k\<close>, that is, \<open>k\<close> is a key of
  \<open>SCHOOL_EC\<close>, the file has the suffix \<open>.csv\<close> and its normalized name contains the
  normalized school name. \<open>last_match P files\<close> is the last entry of a listing that
  satisfies \<open>P\<close>.
\<close>

definition names :: "ustr \<Rightarrow> entry \<Rightarrow> bool" where
  "names k file =
     (k \<in> fst ` set SCHOOL_EC \<and> lower (suffix (name file)) = dot_csv \<and>
      py_in (normalize k) (normalize (name file)))"

fun last_match :: "(entry \<Rightarrow> bool) \<Rightarrow> entry list \<Rightarrow> entry option" where
  "last_match P [] = None"
| "last_match P (f # fs) =
     (case last_match P fs of
        Some g \<Rightarrow> Some g
      | None \<Rightarrow> if P f then Some f else None)"

section \<open>Example inputs\<close>

definition one_reading :: "reading list" where
  "one_reading = [\<lparr>time = [49], temperature = 20, humidity = 50, ph = 6, ec = 1\<rparr>]"

text \<open>A log whose name holds two school names, \<open>songdo\<close> and \<open>haneul\<close>, joined by \<open>_\<close>.\<close>

definition two_schools_csv :: entry where
  "two_schools_csv =
     \<lparr>name = [49569, 46020, 44256, 95, 54616, 45720, 44256, 46, 99, 115, 118],
      read_csv = Inr one_reading, ExcelFile = Inl ReadError\<rparr>"

text \<open>
  A log named by \<open>songdo\<close> in decomposed form followed by \<open>.CSV\<close>, as a file system that
  stores names decomposed lists it.
\<close>

definition decomposed_csv :: entry where
  "decomposed_csv =
     \<lparr>name = [4361, 4457, 4540, 4355, 4457, 4352, 4457, 46, 67, 83, 86],
      read_csv = Inr one_reading, ExcelFile = Inl ReadError\<rparr>"

text \<open>
  A log named by \<open>songdo\<close> in composed form, directly followed by the trailing consonant
  U+11A8 and \<open>.csv\<close>.
\<close>

definition gok_csv :: entry where
  "gok_csv =
     \<lparr>name = [49569, 46020, 44256, 4520, 46, 99, 115, 118],
      read_csv = Inr one_reading, ExcelFile = Inl ReadError\<rparr>"

text \<open>\<open>notes.txt\<close>, and \<open>a.csv\<close> that cannot be parsed.\<close>

definition notes_txt :: entry where
  "notes_txt =
     \<lparr>name = [110, 111, 116, 101, 115, 46, 116, 120, 116],
      read_csv = Inl ReadError, ExcelFile = Inl ReadError\<rparr>"

definition a_csv :: entry where
  "a_csv = \<lparr>name = [97, 46, 99, 115, 118], read_csv = Inl ReadError, ExcelFile = Inl ReadError\<rparr>"

text \<open>A workbook \<open>b.xlsx\<close> with the single sheet \<open>Sheet1\<close> holding one plant.\<close>

definition Sheet1 :: ustr where
  "Sheet1 = [83, 104, 101, 101, 116, 49]"

definition one_plant :: measurement where
  "one_plant = \<lparr>leaves = 5, shoot = 30, weight = 2\<rparr>"

definition b_xlsx :: entry where
  "b_xlsx =
     \<lparr>name = [98, 46, 120, 108, 115, 120], read_csv = Inl ReadError,
      ExcelFile = Inr [(Sheet1, Inr [one_plant])]\<rparr>"

text \<open>
  An instance of the parameter \<open>mean\<close> for the examples: sum divided by count. On the
  example rows below (small whole numbers whose sums and means are whole numbers) this is
  what \<open>float64\<close> arithmetic gives, in any order of summation.
\<close>

definition exact_mean :: "real list \<Rightarrow> real option" where
  "exact_mean xs = Some (sum_list xs / real (length xs))"







section \<open>Normalization: lemmas\<close>

lemma nfd_append: "nfd (a @ b) = nfd a @ nfd b"
  by (simp add: nfd_def)

lemma nfd_Cons: "nfd (c # cs) = decompose_char c @ nfd cs"
  by (simp add: nfd_def)

lemma nfd_Nil: "nfd [] = []"
  by (simp add: nfd_def)

lemma decompose_char_no_S: "x \<in> set (decompose_char c) \<Longrightarrow> \<not> is_S x"
  by (auto simp: decompose_char_def is_S_def Let_def split: if_splits)

lemma nfd_no_S: "x \<in> set (nfd s) \<Longrightarrow> \<not> is_S x"
  by (auto simp: nfd_def dest: decompose_char_no_S)

lemma nfd_fixed: "\<forall>c \<in> set d. \<not> is_S c \<Longrightarrow> nfd d = d"
  by (induction d) (simp_all add: nfd_Nil nfd_Cons decompose_char_def)

lemma nfd_nfd: "nfd (nfd s) = nfd s"
  by (rule nfd_fixed) (simp add: nfd_no_S)

lemma div_mod_digit:
  fixes a k r :: nat
  assumes "r < k"
  shows "(a * k + r) div k = a" and "(a * k + r) mod k = r"
  using assms by simp_all

lemma syllable_index:
  fixes a b t n :: nat
  assumes "b < 21" "t < 28" "n = (a * 21 + b) * 28 + t"
  shows "n div 588 = a" and "(n mod 588) div 28 = b" and "n mod 28 = t"
proof -
  define r where "r = b * 28 + t"
  have e: "n = a * 588 + r"
    by (simp add: r_def assms(3) algebra_simps)
  have lt: "r < 588"
    using assms by (simp add: r_def)
  show "n div 588 = a"
    unfolding e using lt by (rule div_mod_digit(1))
  have "n mod 588 = r"
    unfolding e using lt by (rule div_mod_digit(2))
  moreover have "r div 28 = b"
    unfolding r_def using assms(2) by (rule div_mod_digit(1))
  ultimately show "(n mod 588) div 28 = b"
    by simp
  have "n = (a * 21 + b) * 28 + t"
    by (rule assms(3))
  then show "n mod 28 = t"
    using assms(2) div_mod_digit(2) by blast
qed

lemma decompose_LVT:
  assumes "is_L l" "is_V v" "t < 28"
  shows "decompose_char (compose_LV l v + t) =
     (if t = 0 then [l, v] else [l, v, 4519 + t])"
proof -
  define a where "a = l - 4352"
  define b where "b = v - 4449"
  define n where "n = (a * 21 + b) * 28 + t"
  have l: "l = 4352 + a" and a: "a < 19" and v: "v = 4449 + b" and b: "b < 21"
    using assms by (auto simp: a_def b_def is_L_def is_V_def)
  have c: "compose_LV l v + t = 44032 + n"
    by (simp add: compose_LV_def a_def b_def n_def)
  have "a * 21 + b \<le> 398"
    using a b by linarith
  then have "(a * 21 + b) * 28 \<le> 398 * 28"
    by (rule mult_le_mono1)
  then have "n < 11172"
    using assms(3) by (simp add: n_def)
  then have S: "is_S (44032 + n)"
    by (simp add: is_S_def)
  note idx = syllable_index[OF b assms(3) n_def]
  show ?thesis
    unfolding c decompose_char_def using S idx
    by (simp add: Let_def l v)
qed

lemma nfd_compose: "\<forall>c \<in> set d. \<not> is_S c \<Longrightarrow> nfd (compose d) = d"
proof (induction d rule: compose.induct)
  case (1 l v t cs)
  show ?case
  proof (cases "is_L l \<and> is_V v")
    case True
    then have L: "is_L l" and V: "is_V v" by simp_all
    show ?thesis
    proof (cases "is_T t")
      case True
      then have t: "t - 4519 < 28" "t - 4519 \<noteq> 0" "4519 + (t - 4519) = t"
        by (auto simp: is_T_def)
      have "nfd (compose cs) = cs"
        using 1 L V True by simp
      then show ?thesis
        using L V True t decompose_LVT[OF L V t(1)] by (simp add: nfd_Cons)
    next
      case False
      have "nfd (compose (t # cs)) = t # cs"
        using 1 L V False by simp
      then show ?thesis
        using L V False decompose_LVT[OF L V, of 0] by (simp add: nfd_Cons)
    qed
  next
    case False
    have "nfd (compose (v # t # cs)) = v # t # cs"
      using 1 False by simp
    moreover have "decompose_char l = [l]"
      using 1(4) by (simp add: decompose_char_def)
    moreover have "compose (l # v # t # cs) = l # compose (v # t # cs)"
      using False by auto
    ultimately show ?thesis
      by (simp only: nfd_Cons append.simps)
  qed
next
  case (2 l v)
  then show ?case
    using decompose_LVT[of l v 0]
    by (auto simp: nfd_Cons nfd_Nil decompose_char_def)
next
  case (3 c)
  then show ?case by (simp add: nfd_Cons nfd_Nil decompose_char_def)
next
  case 4
  show ?case by (simp add: nfd_Nil)
qed

lemma nfc_nfc: "nfc (nfc s) = nfc s"
  by (simp add: nfc_def nfd_compose nfd_no_S)

lemma nfc_nfd: "nfc (nfd s) = nfc s"
  by (simp add: nfc_def nfd_nfd)

lemma nfd_nfc: "nfd (nfc s) = nfd s"
  by (simp add: nfc_def nfd_compose nfd_no_S)

lemma nfc_schools:
  "nfc songdo = songdo" "nfc haneul = haneul" "nfc ara = ara" "nfc dongsan = dongsan"
  by (simp_all add: nfc_def nfd_def decompose_char_def is_S_def is_L_def is_V_def is_T_def
      compose_LV_def Let_def songdo_def haneul_def ara_def dongsan_def)

lemma normalize_schools:
  "normalize songdo = songdo" "normalize haneul = haneul"
  "normalize ara = ara" "normalize dongsan = dongsan"
  by (simp_all add: normalize_def nfc_schools)

lemma normalize_school:
  "k \<in> fst ` set SCHOOL_EC \<Longrightarrow> normalize k = k"
  by (auto simp: SCHOOL_EC_def normalize_schools)

text \<open>
  Composition does not cross a boundary before a code point that is neither a vowel nor
  a trailing consonant.
\<close>

lemma compose_no_pair: "\<not> (is_L a \<and> is_V b) \<Longrightarrow> compose (a # b # cs) = a # compose (b # cs)"
  by (cases cs) auto

lemma compose_append:
  "ys = [] \<or> (\<not> is_V (hd ys) \<and> \<not> is_T (hd ys)) \<Longrightarrow> compose (xs @ ys) = compose xs @ compose ys"
proof (induction xs rule: compose.induct)
  case (1 l v t cs)
  then show ?case by simp
next
  case (2 l v)
  show ?case
  proof (cases ys)
    case Nil
    then show ?thesis by simp
  next
    case (Cons y ys')
    then have y: "\<not> is_V y" "\<not> is_T y"
      using 2 by simp_all
    have "compose (v # y # ys') = v # compose (y # ys')"
      using y(1) by (simp add: compose_no_pair)
    then show ?thesis
      using Cons y by simp
  qed
next
  case (3 c)
  show ?case
  proof (cases ys)
    case Nil
    then show ?thesis by simp
  next
    case (Cons y ys')
    then have "\<not> is_V y"
      using 3 by simp
    then have "compose (c # y # ys') = c # compose (y # ys')"
      by (simp add: compose_no_pair)
    then show ?thesis
      using Cons by simp
  qed
next
  case 4
  show ?case by simp
qed

text \<open>
  The decomposition of a text starts with a trailing consonant only if the text does.
\<close>

lemma nfd_starts_with_T:
  assumes "post = [] \<or> \<not> is_T (hd post)"
  shows "nfd post = [] \<or> \<not> is_T (hd (nfd post))"
proof (cases post)
  case Nil
  then show ?thesis by (simp add: nfd_Nil)
next
  case (Cons c cs)
  then have c: "\<not> is_T c"
    using assms by simp
  show ?thesis
  proof (cases "is_S c")
    case False
    then show ?thesis
      using c Cons by (simp add: nfd_Cons decompose_char_def)
  next
    case True
    define s where "s = c - 44032"
    have "s < 11172" using True by (auto simp: s_def is_S_def)
    then have "s div 588 < 19" by simp
    then have "\<not> is_T (4352 + s div 588)"
      by (simp add: is_T_def)
    then show ?thesis
      using True Cons by (simp add: nfd_Cons decompose_char_def Let_def s_def)
  qed
qed

text \<open>
  A school name, composed or decomposed, that is not directly followed by a trailing
  consonant comes out of the normalization as the composed school name, whatever stands
  before and after it.
\<close>

lemma compose_school:
  assumes "k \<in> fst ` set SCHOOL_EC" and "q = [] \<or> \<not> is_T (hd q)"
  shows "compose (nfd k @ q) = k @ compose q"
proof -
  have "compose (nfd songdo @ q) = songdo @ compose q"
    using assms(2)
    by (cases q) (simp_all add: songdo_def nfd_def decompose_char_def is_S_def is_L_def is_V_def
        is_T_def compose_LV_def Let_def)
  moreover have "compose (nfd haneul @ q) = haneul @ compose q"
    using assms(2)
    by (cases q) (simp_all add: haneul_def nfd_def decompose_char_def is_S_def is_L_def is_V_def
        is_T_def compose_LV_def Let_def)
  moreover have "compose (nfd ara @ q) = ara @ compose q"
    using assms(2)
    by (cases q) (simp_all add: ara_def nfd_def decompose_char_def is_S_def is_L_def is_V_def
        is_T_def compose_LV_def Let_def)
  moreover have "compose (nfd dongsan @ q) = dongsan @ compose q"
    using assms(2)
    by (cases q) (simp_all add: dongsan_def nfd_def decompose_char_def is_S_def is_L_def is_V_def
        is_T_def compose_LV_def Let_def)
  ultimately show ?thesis
    using assms(1) by (auto simp: SCHOOL_EC_def)
qed

lemma nfd_school_starts_with_L:
  assumes "k \<in> fst ` set SCHOOL_EC"
  shows "\<not> is_V (hd (nfd k @ q)) \<and> \<not> is_T (hd (nfd k @ q))"
  using assms
  by (auto simp: SCHOOL_EC_def songdo_def haneul_def ara_def dongsan_def nfd_def
      decompose_char_def is_S_def is_V_def is_T_def Let_def)

lemma normalize_embedded:
  assumes "k \<in> fst ` set SCHOOL_EC"
    and "x = k \<or> x = nfd k"
    and "post = [] \<or> \<not> is_T (hd post)"
  shows "normalize (pre @ x @ post) = normalize pre @ k @ normalize post"
proof -
  have x: "nfd x = nfd k"
    using assms(2) by (auto simp: nfd_nfd)
  have "nfd (pre @ x @ post) = nfd pre @ (nfd k @ nfd post)"
    by (simp add: nfd_append x)
  moreover have "compose (nfd pre @ (nfd k @ nfd post)) = compose (nfd pre) @ compose (nfd k @ nfd post)"
    using nfd_school_starts_with_L[OF assms(1), of "nfd post"] by (intro compose_append) simp
  moreover have "compose (nfd k @ nfd post) = k @ compose (nfd post)"
    using assms(1) nfd_starts_with_T[OF assms(3)] by (rule compose_school)
  ultimately show ?thesis
    by (simp add: normalize_def nfc_def)
qed

section \<open>Loading: lemmas\<close>

lemma py_in_iff: "py_in sub s \<longleftrightarrow> (\<exists>pre post. s = pre @ sub @ post)"
proof (induction s)
  case Nil
  then show ?case by auto
next
  case (Cons c cs)
  show ?case
  proof
    assume "py_in sub (c # cs)"
    then consider "take (length sub) (c # cs) = sub" | "py_in sub cs" by auto
    then show "\<exists>pre post. c # cs = pre @ sub @ post"
    proof cases
      case 1
      then have "c # cs = [] @ sub @ drop (length sub) (c # cs)"
        by (metis append_Nil append_take_drop_id)
      then show ?thesis by blast
    next
      case 2
      then obtain pre post where "cs = pre @ sub @ post" using Cons by blast
      then have "c # cs = (c # pre) @ sub @ post" by simp
      then show ?thesis by blast
    qed
  next
    assume "\<exists>pre post. c # cs = pre @ sub @ post"
    then obtain pre post where e: "c # cs = pre @ sub @ post" by blast
    show "py_in sub (c # cs)"
    proof (cases pre)
      case Nil
      then have "take (length sub) (c # cs) = sub" using e by simp
      then show ?thesis by simp
    next
      case (Cons p ps)
      then have "cs = ps @ sub @ post" using e by simp
      then have "py_in sub cs" using Cons.IH by blast
      then show ?thesis by simp
    qed
  qed
qed

lemma match_schools_lookup:
  "match_schools file nm ks data = Inr data' \<Longrightarrow>
   map_of data' k =
     (if k \<in> set ks \<and> py_in (normalize k) nm
      then (case read_csv file of Inl e \<Rightarrow> None | Inr df \<Rightarrow> Some (stamp k df))
      else map_of data k)"
proof (induction ks arbitrary: data)
  case Nil
  then show ?case by simp
next
  case (Cons s ks)
  show ?case
  proof (cases "py_in (normalize s) nm")
    case False
    then have "match_schools file nm ks data = Inr data'" using Cons.prems by simp
    from Cons.IH[OF this] False show ?thesis by auto
  next
    case True
    then obtain df where df: "read_csv file = Inr df"
      and rest: "match_schools file nm ks (AList.update s (stamp s df) data) = Inr data'"
      using Cons.prems by (auto split: sum.splits)
    from Cons.IH[OF rest] True df show ?thesis
      by (auto simp: update_conv')
  qed
qed

lemma scan_csv_lookup:
  "scan_csv files data = Inr data' \<Longrightarrow>
   map_of data' k =
     (case last_match (names k) files of
        None \<Rightarrow> map_of data k
      | Some f \<Rightarrow> (case read_csv f of Inl e \<Rightarrow> None | Inr df \<Rightarrow> Some (stamp k df)))"
proof (induction files arbitrary: data)
  case Nil
  then show ?case by simp
next
  case (Cons f fs)
  show ?case
  proof (cases "lower (suffix (name f)) = dot_csv")
    case False
    then have nf: "\<not> names k f"
      by (simp add: names_def)
    have "scan_csv fs data = Inr data'"
      using Cons.prems False by simp
    from Cons.IH[OF this] nf show ?thesis
      by (simp split: option.splits)
  next
    case True
    then obtain d1 where d1: "match_schools f (normalize (name f)) (map fst SCHOOL_EC) data = Inr d1"
      and rest: "scan_csv fs d1 = Inr data'"
      using Cons.prems by (auto split: sum.splits)
    have m1: "map_of d1 k =
        (if names k f then (case read_csv f of Inl e \<Rightarrow> None | Inr df \<Rightarrow> Some (stamp k df))
         else map_of data k)"
      using match_schools_lookup[OF d1, of k] True by (simp add: names_def)
    from Cons.IH[OF rest] m1 show ?thesis
      by (cases "last_match (names k) fs"; cases "names k f"; simp)
  qed
qed

lemma last_match_append:
  "P f \<Longrightarrow> \<forall>g \<in> set after. \<not> P g \<Longrightarrow> last_match P (before @ f # after) = Some f"
proof (induction before)
  case Nil
  have "last_match P after = None" using Nil(2) by (induction after) auto
  then show ?case using Nil by simp
next
  case (Cons b bs)
  then show ?case by simp
qed

lemma last_match_None: "last_match P fs = None \<longleftrightarrow> (\<forall>g \<in> set fs. \<not> P g)"
  by (induction fs) (auto split: option.splits)

lemma last_match_Some: "last_match P fs = Some f \<Longrightarrow> f \<in> set fs \<and> P f"
  by (induction fs) (auto split: option.splits if_splits)

lemma update_set: "(a, b) \<in> set (AList.update k v al) \<Longrightarrow> (a, b) = (k, v) \<or> (a, b) \<in> set al"
  by (induction al) (auto split: if_splits)

lemma match_schools_inv:
  "match_schools file nm ks data = Inr data' \<Longrightarrow>
   \<forall>(k, rows) \<in> set data. k \<in> K \<and> (\<forall>r \<in> set rows. hakgyo r = k) \<Longrightarrow>
   set ks \<subseteq> K \<Longrightarrow>
   \<forall>(k, rows) \<in> set data'. k \<in> K \<and> (\<forall>r \<in> set rows. hakgyo r = k)"
proof (induction ks arbitrary: data)
  case Nil
  then show ?case by simp
next
  case (Cons s ks)
  show ?case
  proof (cases "py_in (normalize s) nm")
    case False
    then show ?thesis using Cons by simp
  next
    case True
    then obtain df where df: "read_csv file = Inr df"
      and rest: "match_schools file nm ks (AList.update s (stamp s df) data) = Inr data'"
      using Cons.prems by (auto split: sum.splits)
    have "\<forall>(k, rows) \<in> set (AList.update s (stamp s df) data). k \<in> K \<and> (\<forall>r \<in> set rows. hakgyo r = k)"
      using Cons.prems(2,3) by (auto dest!: update_set simp: stamp_def)
    from Cons.IH[OF rest this] Cons.prems(3) show ?thesis by simp
  qed
qed

lemma scan_csv_inv:
  "scan_csv files data = Inr data' \<Longrightarrow>
   \<forall>(k, rows) \<in> set data. k \<in> fst ` set SCHOOL_EC \<and> (\<forall>r \<in> set rows. hakgyo r = k) \<Longrightarrow>
   \<forall>(k, rows) \<in> set data'. k \<in> fst ` set SCHOOL_EC \<and> (\<forall>r \<in> set rows. hakgyo r = k)"
proof (induction files arbitrary: data)
  case Nil
  then show ?case by simp
next
  case (Cons f fs)
  show ?case
  proof (cases "lower (suffix (name f)) = dot_csv")
    case False
    then show ?thesis using Cons by simp
  next
    case True
    then obtain d1 where d1: "match_schools f (normalize (name f)) (map fst SCHOOL_EC) data = Inr d1"
      and rest: "scan_csv fs d1 = Inr data'"
      using Cons.prems by (auto split: sum.splits)
    from match_schools_inv[OF d1 Cons.prems(2)] have "\<forall>(k, rows) \<in> set d1. k \<in> fst ` set SCHOOL_EC \<and> (\<forall>r \<in> set rows. hakgyo r = k)"
      by simp
    from Cons.IH[OF rest this] show ?thesis .
  qed
qed

lemma match_schools_distinct:
  "match_schools file nm ks data = Inr data' \<Longrightarrow> distinct (map fst data) \<Longrightarrow> distinct (map fst data')"
  by (induction ks arbitrary: data) (auto split: if_splits sum.splits simp: distinct_update)

lemma scan_csv_distinct:
  "scan_csv files data = Inr data' \<Longrightarrow> distinct (map fst data) \<Longrightarrow> distinct (map fst data')"
  by (induction files arbitrary: data) (auto split: if_splits sum.splits dest: match_schools_distinct)

lemma load_environment_lookup:
  assumes "load_environment_data (Directory files) = Inr (msgs, data)"
  shows "map_of data k =
     (case last_match (names k) files of
        None \<Rightarrow> None
      | Some f \<Rightarrow> (case read_csv f of Inl e \<Rightarrow> None | Inr df \<Rightarrow> Some (stamp k df)))"
proof -
  have "scan_csv files [] = Inr data"
    using assms by (auto simp: load_environment_data_def split: sum.splits)
  from scan_csv_lookup[OF this, of k] show ?thesis
    by (simp split: option.splits)
qed

lemma match_schools_fails:
  "read_csv file = Inl e \<Longrightarrow> k \<in> set ks \<Longrightarrow> py_in (normalize k) nm \<Longrightarrow>
   match_schools file nm ks data = Inl e"
  by (induction ks arbitrary: data) auto

lemma scan_csv_fails:
  assumes "read_csv file = Inl e" and "names k file"
  shows "\<exists>e'. scan_csv (before @ file # after) data = Inl e'"
proof (induction before arbitrary: data)
  case Nil
  have "k \<in> set (map fst SCHOOL_EC)" "py_in (normalize k) (normalize (name file))"
    and csv: "lower (suffix (name file)) = dot_csv"
    using assms(2) by (simp_all add: names_def)
  then have "match_schools file (normalize (name file)) (map fst SCHOOL_EC) data = Inl e"
    using assms(1) by (intro match_schools_fails)
  then show ?case using csv by simp
next
  case (Cons b bs)
  show ?case
  proof (cases "lower (suffix (name b)) = dot_csv")
    case False
    then show ?thesis using Cons by simp
  next
    case True
    show ?thesis
    proof (cases "match_schools b (normalize (name b)) (map fst SCHOOL_EC) data")
      case (Inl e1)
      then show ?thesis using True by simp
    next
      case (Inr d1)
      then show ?thesis using True Cons[of d1] by simp
    qed
  qed
qed

lemma load_environment_stored:
  assumes "load_environment_data (Directory (before @ file # after)) = Inr (msgs, data)"
    and "names k file"
    and "\<forall>g \<in> set after. \<not> names k g"
  shows "\<exists>df. read_csv file = Inr df \<and> map_of data k = Some (stamp k df)"
proof -
  have lm: "last_match (names k) (before @ file # after) = Some file"
    using assms(2,3) by (rule last_match_append)
  have sc: "scan_csv (before @ file # after) [] = Inr data"
    using assms(1) by (auto simp: load_environment_data_def split: sum.splits)
  have m: "map_of data k = (case read_csv file of Inl e \<Rightarrow> None | Inr df \<Rightarrow> Some (stamp k df))"
    using load_environment_lookup[OF assms(1), of k] lm by simp
  have "\<exists>df. read_csv file = Inr df"
  proof (cases "read_csv file")
    case (Inr df)
    then show ?thesis by simp
  next
    case (Inl e)
    from scan_csv_fails[OF Inl assms(2), of before after "[]"] sc show ?thesis
      by auto
  qed
  with m show ?thesis by auto
qed

lemma match_schools_none:
  "\<forall>k \<in> set ks. \<not> py_in (normalize k) nm \<Longrightarrow> match_schools file nm ks data = Inr data"
  by (induction ks) simp_all

lemma scan_csv_none:
  "\<forall>f \<in> set files. \<forall>k \<in> fst ` set SCHOOL_EC. \<not> names k f \<Longrightarrow> scan_csv files data = Inr data"
proof (induction files)
  case Nil
  then show ?case by simp
next
  case (Cons f fs)
  show ?case
  proof (cases "lower (suffix (name f)) = dot_csv")
    case False
    then show ?thesis using Cons by simp
  next
    case True
    then have "\<forall>k \<in> set (map fst SCHOOL_EC). \<not> py_in (normalize k) (normalize (name f))"
      using Cons.prems by (auto simp: names_def)
    then have "match_schools f (normalize (name f)) (map fst SCHOOL_EC) data = Inr data"
      by (rule match_schools_none)
    then show ?thesis using True Cons by simp
  qed
qed

lemma first_xlsx_none:
  "\<forall>f \<in> set files. lower (suffix (name f)) \<noteq> dot_xlsx \<Longrightarrow> first_xlsx files = None"
  by (induction files) simp_all

text \<open>
  When every sheet parses, the frames are the sheets' tables in the file's order, each
  tagged with the name of its own sheet.
\<close>

lemma parse_sheets_all:
  "map snd sheets = map Inr tables \<Longrightarrow>
   parse_sheets sheets = Inr (map (\<lambda>(sheet, df). stamp sheet df) (zip (map fst sheets) tables))"
proof (induction sheets arbitrary: tables)
  case Nil
  then show ?case by simp
next
  case (Cons p ps)
  obtain sheet parsed where p: "p = (sheet, parsed)" by (cases p)
  from Cons.prems p obtain df dfs where t: "tables = df # dfs" and df: "parsed = Inr df"
    and rest: "map snd ps = map Inr dfs"
    by (cases tables) auto
  from Cons.IH[OF rest] p t df show ?case by simp
qed

lemma EC_Some_known: "EC r = Some e \<Longrightarrow> hakgyo r \<in> fst ` set SCHOOL_EC"
  unfolding EC_def by (metis map_of_SomeD fst_conv image_eqI)

lemma EC_unknown: "hakgyo r \<notin> fst ` set SCHOOL_EC \<Longrightarrow> EC r = None"
  using EC_Some_known by (cases "EC r") auto

lemma mean_weight_known:
  "mean_weight mean (filter (\<lambda>r. hakgyo r \<in> fst ` set SCHOOL_EC) rows) = mean_weight mean rows"
proof -
  let ?known = "\<lambda>r. hakgyo r \<in> fst ` set SCHOOL_EC"
  have f: "filter (\<lambda>r. EC r = Some e) (filter ?known rows) = filter (\<lambda>r. EC r = Some e) rows" for e
    by (induction rows) (auto dest: EC_Some_known)
  have m: "List.map_filter EC (filter ?known rows) = List.map_filter EC rows"
    by (induction rows) (auto simp: List.map_filter_simps EC_unknown split: option.splits)
  show ?thesis
    by (simp only: mean_weight_def f m)
qed

lemma match_schools_returns:
  "\<forall>k \<in> set ks. py_in (normalize k) nm \<longrightarrow> (\<exists>df. read_csv file = Inr df) \<Longrightarrow>
   \<exists>data'. match_schools file nm ks data = Inr data'"
  by (induction ks arbitrary: data) auto

lemma scan_csv_returns:
  "\<forall>f \<in> set files. \<forall>k. names k f \<longrightarrow> (\<exists>df. read_csv f = Inr df) \<Longrightarrow>
   \<exists>data'. scan_csv files data = Inr data'"
proof (induction files arbitrary: data)
  case Nil
  then show ?case by simp
next
  case (Cons f fs)
  show ?case
  proof (cases "lower (suffix (name f)) = dot_csv")
    case False
    then show ?thesis using Cons by simp
  next
    case True
    have "\<forall>k \<in> set (map fst SCHOOL_EC). py_in (normalize k) (normalize (name f)) \<longrightarrow>
        (\<exists>df. read_csv f = Inr df)"
      using Cons.prems True by (auto simp: names_def)
    from match_schools_returns[OF this] obtain d1
      where "match_schools f (normalize (name f)) (map fst SCHOOL_EC) data = Inr d1"
      by blast
    moreover obtain d2 where "scan_csv fs d1 = Inr d2"
      using Cons.IH[of d1] Cons.prems by auto
    ultimately show ?thesis using True by simp
  qed
qed

text \<open>
  The loader returns on a missing directory and on a directory in which every file taken
  for a school parses.
\<close>

lemma load_environment_data_returns:
  "\<exists>msgs data. load_environment_data Missing = Inr (msgs, data)"
  "\<forall>f \<in> set files. \<forall>k. names k f \<longrightarrow> (\<exists>df. read_csv f = Inr df) \<Longrightarrow>
   \<exists>msgs data. load_environment_data (Directory files) = Inr (msgs, data)"
proof -
  show "\<exists>msgs data. load_environment_data Missing = Inr (msgs, data)"
    by (simp add: load_environment_data_def)
  assume "\<forall>f \<in> set files. \<forall>k. names k f \<longrightarrow> (\<exists>df. read_csv f = Inr df)"
  from scan_csv_returns[OF this, of "[]"] show
    "\<exists>msgs data. load_environment_data (Directory files) = Inr (msgs, data)"
    by (auto simp: load_environment_data_def)
qed

subsection \<open>The example directories, evaluated\<close>

lemma two_schools_csv_name:
  "lower (suffix (name two_schools_csv)) = dot_csv"
  "normalize (name two_schools_csv) = [49569, 46020, 44256, 95, 54616, 45720, 44256, 46, 99, 115, 118]"
  by (simp_all add: two_schools_csv_def suffix_def lower_def dot_csv_def normalize_def nfc_def
      nfd_def decompose_char_def is_S_def is_L_def is_V_def is_T_def compose_LV_def Let_def)

lemma decomposed_csv_name:
  "lower (suffix (name decomposed_csv)) = dot_csv"
  "normalize (name decomposed_csv) = [49569, 46020, 44256, 46, 67, 83, 86]"
  by (simp_all add: decomposed_csv_def suffix_def lower_def dot_csv_def normalize_def nfc_def
      nfd_def decompose_char_def is_S_def is_L_def is_V_def is_T_def compose_LV_def Let_def)

lemma load_two_schools_csv:
  "load_environment_data (Directory [two_schools_csv]) =
     Inr ([], [(songdo, stamp songdo one_reading), (haneul, stamp haneul one_reading)])"
proof -
  have r: "read_csv two_schools_csv = Inr one_reading"
    by (simp add: two_schools_csv_def)
  have k: "map fst SCHOOL_EC = [songdo, haneul, ara, dongsan]"
    by (simp add: SCHOOL_EC_def)
  have ne: "songdo \<noteq> haneul"
    by (simp add: songdo_def haneul_def)
  have m: "py_in songdo [49569, 46020, 44256, 95, 54616, 45720, 44256, 46, 99, 115, 118]"
    "py_in haneul [49569, 46020, 44256, 95, 54616, 45720, 44256, 46, 99, 115, 118]"
    "\<not> py_in ara [49569, 46020, 44256, 95, 54616, 45720, 44256, 46, 99, 115, 118]"
    "\<not> py_in dongsan [49569, 46020, 44256, 95, 54616, 45720, 44256, 46, 99, 115, 118]"
    by (simp_all add: songdo_def haneul_def ara_def dongsan_def)
  show ?thesis
    using ne
    by (simp add: load_environment_data_def two_schools_csv_name normalize_schools r k m
        del: py_in.simps)
qed

lemma load_decomposed_csv:
  "load_environment_data (Directory [decomposed_csv]) = Inr ([], [(songdo, stamp songdo one_reading)])"
proof -
  have r: "read_csv decomposed_csv = Inr one_reading"
    by (simp add: decomposed_csv_def)
  have k: "map fst SCHOOL_EC = [songdo, haneul, ara, dongsan]"
    by (simp add: SCHOOL_EC_def)
  have m: "py_in songdo [49569, 46020, 44256, 46, 67, 83, 86]"
    "\<not> py_in haneul [49569, 46020, 44256, 46, 67, 83, 86]"
    "\<not> py_in ara [49569, 46020, 44256, 46, 67, 83, 86]"
    "\<not> py_in dongsan [49569, 46020, 44256, 46, 67, 83, 86]"
    by (simp_all add: songdo_def haneul_def ara_def dongsan_def)
  show ?thesis
    by (simp add: load_environment_data_def decomposed_csv_name normalize_schools r k m
        del: py_in.simps)
qed

lemma load_gok_csv:
  "load_environment_data (Directory [gok_csv]) = Inr ([], [])"
proof -
  have s: "lower (suffix (name gok_csv)) = dot_csv"
    by (simp add: gok_csv_def suffix_def lower_def dot_csv_def)
  have n: "normalize (name gok_csv) = [49569, 46020, 44257, 46, 99, 115, 118]"
    by (simp add: gok_csv_def normalize_def nfc_def nfd_def decompose_char_def is_S_def is_L_def
        is_V_def is_T_def compose_LV_def Let_def)
  have k: "map fst SCHOOL_EC = [songdo, haneul, ara, dongsan]"
    by (simp add: SCHOOL_EC_def)
  have m: "\<not> py_in songdo [49569, 46020, 44257, 46, 99, 115, 118]"
    "\<not> py_in haneul [49569, 46020, 44257, 46, 99, 115, 118]"
    "\<not> py_in ara [49569, 46020, 44257, 46, 99, 115, 118]"
    "\<not> py_in dongsan [49569, 46020, 44257, 46, 99, 115, 118]"
    by (simp_all add: songdo_def haneul_def ara_def dongsan_def)
  show ?thesis
    by (simp add: load_environment_data_def s n normalize_schools k m del: py_in.simps)
qed

lemma two_schools_csv_contains:
  "py_in (normalize songdo) (normalize (name two_schools_csv))"
  "py_in (normalize haneul) (normalize (name two_schools_csv))"
  unfolding normalize_schools two_schools_csv_name(2)
  by (simp_all add: songdo_def haneul_def)

lemma not_names_a_csv: "k \<in> fst ` set SCHOOL_EC \<Longrightarrow> \<not> names k a_csv"
proof -
  have n: "normalize (name a_csv) = [97, 46, 99, 115, 118]"
    by (simp add: a_csv_def normalize_def nfc_def nfd_def decompose_char_def is_S_def is_L_def
        is_V_def is_T_def Let_def)
  have "\<not> py_in songdo [97, 46, 99, 115, 118]" "\<not> py_in haneul [97, 46, 99, 115, 118]"
    "\<not> py_in ara [97, 46, 99, 115, 118]" "\<not> py_in dongsan [97, 46, 99, 115, 118]"
    by (simp_all add: songdo_def haneul_def ara_def dongsan_def)
  then show "k \<in> fst ` set SCHOOL_EC \<Longrightarrow> \<not> names k a_csv"
    unfolding names_def n by (auto simp: SCHOOL_EC_def normalize_schools simp del: py_in.simps)
qed

lemma not_names_notes_txt: "\<not> names k notes_txt"
  by (simp add: names_def notes_txt_def suffix_def lower_def dot_csv_def)

section \<open>Claims on loading\<close>

text \<open>
  C10. Whatever the data directory holds, every key of the dict that
  \<open>load_environment_data\<close> returns is a key of \<open>SCHOOL_EC\<close>, no key occurs twice, and
  every row of the table stored under a key carries that key as its tag. (The loader
  returns whenever the directory is missing or every file it takes for a school parses:
  \<open>load_environment_data_returns\<close>.)
\<close>

theorem environment_keys_known_rows_tagged:
  assumes "load_environment_data DATA_DIR = Inr (msgs, data)"
  shows "fst ` set data \<subseteq> fst ` set SCHOOL_EC \<and> distinct (map fst data) \<and>
         (\<forall>(k, rows) \<in> set data. \<forall>r \<in> set rows. hakgyo r = k)"
proof (cases DATA_DIR)
  case Missing
  then show ?thesis using assms by (simp add: load_environment_data_def)
next
  case NotDirectory
  then show ?thesis using assms by (simp add: load_environment_data_def)
next
  case (Directory files)
  then have sc: "scan_csv files [] = Inr data"
    using assms by (auto simp: load_environment_data_def split: sum.splits)
  have inv: "\<forall>(k, rows) \<in> set data. k \<in> fst ` set SCHOOL_EC \<and> (\<forall>r \<in> set rows. hakgyo r = k)"
    using scan_csv_inv[OF sc] by simp
  have "distinct (map fst data)"
    using scan_csv_distinct[OF sc] by simp
  with inv show ?thesis by auto
qed

theorem environment_keys_known_rows_tagged_witness:
  "load_environment_data (Directory [two_schools_csv]) =
     Inr ([], [(songdo, stamp songdo one_reading), (haneul, stamp haneul one_reading)]) \<and>
   fst ` set [(songdo, stamp songdo one_reading), (haneul, stamp haneul one_reading)]
     \<subseteq> fst ` set SCHOOL_EC \<and>
   distinct [songdo, haneul] \<and>
   map hakgyo (stamp songdo one_reading) = [songdo] \<and>
   map hakgyo (stamp haneul one_reading) = [haneul]"
  using environment_keys_known_rows_tagged[OF load_two_schools_csv] load_two_schools_csv
  by (simp add: stamp_def one_reading_def)

text \<open>
  C1 as stated fails. The inner loop has no \<open>break\<close>: a log whose normalized name contains
  the first school \<open>songdo\<close> and the second school \<open>haneul\<close> is stored under both keys,
  not only under the first.
\<close>

theorem two_schools_csv_stored_twice:
  "py_in (normalize songdo) (normalize (name two_schools_csv)) \<and>
   py_in (normalize haneul) (normalize (name two_schools_csv)) \<and>
   load_environment_data (Directory [two_schools_csv]) =
     Inr ([], [(songdo, stamp songdo one_reading), (haneul, stamp haneul one_reading)])"
  by (simp add: load_two_schools_csv two_schools_csv_contains)

text \<open>
  C1, amended. A delimited-text file is classified under every school whose normalized
  name its normalized name contains: for each such school, unless a later file of the
  listing is taken for that school too, the table stored under the school's key is this
  file's table, read for that school and tagged with it. A school that neither this file
  nor any other file of the listing names has no key.
\<close>

theorem stored_under_every_school_named:
  assumes "load_environment_data (Directory (before @ file # after)) = Inr (msgs, data)"
    and "lower (suffix (name file)) = dot_csv"
    and "k \<in> fst ` set SCHOOL_EC"
    and "\<forall>g \<in> set after. \<not> names k g"
  shows "(py_in (normalize k) (normalize (name file)) \<longrightarrow>
            (\<exists>df. read_csv file = Inr df \<and> map_of data k = Some (stamp k df))) \<and>
         (\<not> py_in (normalize k) (normalize (name file)) \<longrightarrow>
            (\<forall>g \<in> set before. \<not> names k g) \<longrightarrow> map_of data k = None)"
proof (intro conjI impI)
  assume "py_in (normalize k) (normalize (name file))"
  then have "names k file"
    using assms(2,3) by (simp add: names_def)
  from load_environment_stored[OF assms(1) this assms(4)]
  show "\<exists>df. read_csv file = Inr df \<and> map_of data k = Some (stamp k df)" .
next
  assume "\<not> py_in (normalize k) (normalize (name file))" and b: "\<forall>g \<in> set before. \<not> names k g"
  then have "\<not> names k file"
    by (simp add: names_def)
  with b assms(4) have "\<forall>g \<in> set (before @ file # after). \<not> names k g"
    by auto
  then have "last_match (names k) (before @ file # after) = None"
    by (simp only: last_match_None)
  with load_environment_lookup[OF assms(1), of k] show "map_of data k = None"
    by simp
qed

theorem stored_under_every_school_named_witness:
  "lower (suffix (name two_schools_csv)) = dot_csv \<and>
   haneul \<in> fst ` set SCHOOL_EC \<and>
   py_in (normalize haneul) (normalize (name two_schools_csv)) \<and>
   load_environment_data (Directory ([] @ two_schools_csv # [])) =
     Inr ([], [(songdo, stamp songdo one_reading), (haneul, stamp haneul one_reading)]) \<and>
   read_csv two_schools_csv = Inr one_reading \<and>
   map_of [(songdo, stamp songdo one_reading), (haneul, stamp haneul one_reading)] haneul =
     Some (stamp haneul one_reading)"
proof -
  have l: "load_environment_data (Directory ([] @ two_schools_csv # [])) =
     Inr ([], [(songdo, stamp songdo one_reading), (haneul, stamp haneul one_reading)])"
    by (simp add: load_two_schools_csv)
  have c: "lower (suffix (name two_schools_csv)) = dot_csv"
    by (rule two_schools_csv_name(1))
  have k: "haneul \<in> fst ` set SCHOOL_EC"
    by (simp add: SCHOOL_EC_def)
  have a: "\<forall>g \<in> set []. \<not> names haneul g"
    by simp
  have p: "py_in (normalize haneul) (normalize (name two_schools_csv))"
    by (rule two_schools_csv_contains(2))
  have r: "read_csv two_schools_csv = Inr one_reading"
    by (simp add: two_schools_csv_def)
  have ne: "haneul \<noteq> songdo"
    by (simp add: songdo_def haneul_def)
  from stored_under_every_school_named[OF l c k a] p l c k r ne show ?thesis
    by simp
qed

text \<open>
  C7 as stated fails. A delimited-text file whose name embeds the first school name in
  composed form, directly followed by the trailing consonant U+11A8, is not classified:
  normalization composes the consonant with the last syllable of the name, the school
  name no longer occurs, and the loader returns the empty dict.
\<close>

theorem embedded_name_before_trailing_consonant_skipped:
  "name gok_csv = songdo @ [4520] @ dot_csv \<and>
   lower (suffix (name gok_csv)) = dot_csv \<and>
   read_csv gok_csv = Inr one_reading \<and>
   load_environment_data (Directory [gok_csv]) = Inr ([], [])"
  by (simp add: load_gok_csv)
    (simp add: gok_csv_def songdo_def dot_csv_def suffix_def lower_def)

text \<open>
  C7, amended. A delimited-text file whose name embeds a school name, in composed or in
  decomposed form, is classified under that school in both cases, provided the code point
  directly after the embedded name is not a trailing consonant (U+11A8 to U+11C2):
  whatever stands before and after, the table stored under the school's key is this
  file's table tagged with the school, unless a later file of the listing is taken for
  that school too.
\<close>

theorem embedded_school_name_classified:
  assumes "k \<in> fst ` set SCHOOL_EC"
    and "name file = pre @ k @ post \<or> name file = pre @ nfd k @ post"
    and "post = [] \<or> \<not> is_T (hd post)"
    and "lower (suffix (name file)) = dot_csv"
    and "load_environment_data (Directory (before @ file # after)) = Inr (msgs, data)"
    and "\<forall>g \<in> set after. \<not> names k g"
  shows "\<exists>df. read_csv file = Inr df \<and> map_of data k = Some (stamp k df)"
proof -
  obtain x where x: "x = k \<or> x = nfd k" and n: "name file = pre @ x @ post"
    using assms(2) by blast
  have "normalize (name file) = normalize pre @ k @ normalize post"
    unfolding n using assms(1) x assms(3) by (rule normalize_embedded)
  then have "py_in k (normalize (name file))"
    unfolding py_in_iff by blast
  then have "py_in (normalize k) (normalize (name file))"
    using assms(1) by (simp add: normalize_school)
  then have "names k file"
    using assms(1,4) by (simp add: names_def)
  from load_environment_stored[OF assms(5) this assms(6)] show ?thesis .
qed

theorem embedded_school_name_classified_witness:
  "songdo \<in> fst ` set SCHOOL_EC \<and>
   name decomposed_csv = [] @ nfd songdo @ [46, 67, 83, 86] \<and>
   \<not> is_T (hd [46, 67, 83, 86]) \<and>
   lower (suffix (name decomposed_csv)) = dot_csv \<and>
   load_environment_data (Directory ([] @ decomposed_csv # [])) =
     Inr ([], [(songdo, stamp songdo one_reading)]) \<and>
   read_csv decomposed_csv = Inr one_reading \<and>
   map_of [(songdo, stamp songdo one_reading)] songdo = Some (stamp songdo one_reading)"
proof -
  have k: "songdo \<in> fst ` set SCHOOL_EC"
    by (simp add: SCHOOL_EC_def)
  have n: "name decomposed_csv = [] @ nfd songdo @ [46, 67, 83, 86]"
    by (simp add: decomposed_csv_def songdo_def nfd_def decompose_char_def is_S_def Let_def)
  then have n': "name decomposed_csv = [] @ songdo @ [46, 67, 83, 86] \<or>
      name decomposed_csv = [] @ nfd songdo @ [46, 67, 83, 86]"
    by simp
  have t: "\<not> is_T (hd [46, 67, 83, 86])"
    by (simp add: is_T_def)
  then have t': "[46, 67, 83, 86] = [] \<or> \<not> is_T (hd [46, 67, 83, 86])"
    by simp
  have s: "lower (suffix (name decomposed_csv)) = dot_csv"
    by (rule decomposed_csv_name(1))
  have l: "load_environment_data (Directory ([] @ decomposed_csv # [])) =
     Inr ([], [(songdo, stamp songdo one_reading)])"
    by (simp add: load_decomposed_csv)
  have a: "\<forall>g \<in> set []. \<not> names songdo g"
    by simp
  have r: "read_csv decomposed_csv = Inr one_reading"
    by (simp add: decomposed_csv_def)
  from embedded_school_name_classified[OF k n' t' s l a] k n t s l r show ?thesis
    by simp
qed

text \<open>
  C8. When the data directory does not exist, \<open>load_environment_data\<close> returns the empty
  dict and \<open>load_growth_data\<close> the empty table, each after reporting that the directory
  was not found. When the directory exists and no entry is taken for a school,
  \<open>load_environment_data\<close> returns the empty dict (no entry is parsed); when no entry has
  the suffix \<open>.xlsx\<close>, \<open>load_growth_data\<close> reports that and returns the empty table. In
  each case the loader returns: no exception escapes.
\<close>

theorem loaders_return_empty:
  "load_environment_data Missing = Inr ([DataDirNotFound], []) \<and>
   load_growth_data Missing = Inr ([DataDirNotFound], EmptyFrame) \<and>
   ((\<forall>f \<in> set files. \<forall>k \<in> fst ` set SCHOOL_EC. \<not> names k f) \<longrightarrow>
      load_environment_data (Directory files) = Inr ([], [])) \<and>
   ((\<forall>f \<in> set files. lower (suffix (name f)) \<noteq> dot_xlsx) \<longrightarrow>
      load_growth_data (Directory files) = Inr ([XlsxNotFound], EmptyFrame))"
  by (simp add: load_environment_data_def load_growth_data_def scan_csv_none first_xlsx_none)

theorem loaders_return_empty_witness:
  "lower (suffix (name a_csv)) = dot_csv \<and>
   read_csv a_csv = Inl ReadError \<and>
   load_environment_data (Directory [notes_txt, a_csv]) = Inr ([], []) \<and>
   load_growth_data (Directory [notes_txt, a_csv]) = Inr ([XlsxNotFound], EmptyFrame)"
proof -
  have e: "\<forall>f \<in> set [notes_txt, a_csv]. \<forall>k \<in> fst ` set SCHOOL_EC. \<not> names k f"
    by (simp add: not_names_a_csv not_names_notes_txt)
  have g: "\<forall>f \<in> set [notes_txt, a_csv]. lower (suffix (name f)) \<noteq> dot_xlsx"
    by (simp add: notes_txt_def a_csv_def suffix_def lower_def dot_xlsx_def)
  have c: "lower (suffix (name a_csv)) = dot_csv" "read_csv a_csv = Inl ReadError"
    by (simp_all add: a_csv_def suffix_def lower_def dot_csv_def)
  from loaders_return_empty[of "[notes_txt, a_csv]"] e g c show ?thesis
    by blast
qed

text \<open>
  C4 as stated fails. A workbook whose only sheet is named \<open>Sheet1\<close> loads, and its row
  is in the growth table with the tag \<open>Sheet1\<close>, which is not a key of \<open>SCHOOL_EC\<close>.
\<close>

theorem unknown_sheet_name_is_kept:
  "load_growth_data (Directory [b_xlsx]) = Inr ([], Frame [\<lparr>hakgyo = Sheet1, cells = one_plant\<rparr>]) \<and>
   map_of SCHOOL_EC Sheet1 = None"
  by (simp add: load_growth_data_def b_xlsx_def suffix_def lower_def dot_xlsx_def pd_concat_def
      stamp_def SCHOOL_EC_def Sheet1_def songdo_def haneul_def ara_def dongsan_def)

text \<open>
  C4, amended. Every row of every sheet of the workbook is in the loaded growth table, in
  the order of the sheets and of their rows, and carries as its tag the name of the sheet
  it was read from, whether or not that name is a known school: nothing is rejected. A
  row whose tag is not a key of \<open>SCHOOL_EC\<close> has no target EC and does not enter the means
  per EC.
\<close>

theorem growth_rows_tagged_with_sheet_name:
  assumes "first_xlsx files = Some xlsx_file"
    and "ExcelFile xlsx_file = Inr sheets"
    and "sheets \<noteq> []"
    and "map snd sheets = map Inr tables"
    and "rows = concat (map (\<lambda>(sheet, df). stamp sheet df) (zip (map fst sheets) tables))"
  shows "load_growth_data (Directory files) = Inr ([], Frame rows) \<and>
         (\<forall>r \<in> set rows. hakgyo r \<notin> fst ` set SCHOOL_EC \<longrightarrow> EC r = None) \<and>
         mean_weight mean rows =
           mean_weight mean (filter (\<lambda>r. hakgyo r \<in> fst ` set SCHOOL_EC) rows)"
proof -
  have p: "parse_sheets sheets =
      Inr (map (\<lambda>(sheet, df). stamp sheet df) (zip (map fst sheets) tables))"
    using assms(4) by (rule parse_sheets_all)
  have "length tables = length sheets"
    using assms(4) by (metis length_map)
  then have "map (\<lambda>(sheet, df). stamp sheet df) (zip (map fst sheets) tables) \<noteq> []"
    using assms(3) by (cases sheets; cases tables) auto
  then have "load_growth_data (Directory files) = Inr ([], Frame rows)"
    using assms(1,2,5) p by (simp add: load_growth_data_def pd_concat_def)
  then show ?thesis
    by (simp add: EC_unknown mean_weight_known)
qed

theorem growth_rows_tagged_with_sheet_name_witness:
  "first_xlsx [b_xlsx] = Some b_xlsx \<and>
   ExcelFile b_xlsx = Inr [(Sheet1, Inr [one_plant])] \<and>
   load_growth_data (Directory [b_xlsx]) = Inr ([], Frame [\<lparr>hakgyo = Sheet1, cells = one_plant\<rparr>]) \<and>
   EC \<lparr>hakgyo = Sheet1, cells = one_plant\<rparr> = None \<and>
   mean_weight exact_mean [\<lparr>hakgyo = Sheet1, cells = one_plant\<rparr>] = []"
proof -
  have f: "first_xlsx [b_xlsx] = Some b_xlsx"
    by (simp add: b_xlsx_def suffix_def lower_def dot_xlsx_def)
  have x: "ExcelFile b_xlsx = Inr [(Sheet1, Inr [one_plant])]"
    by (simp add: b_xlsx_def)
  have n: "[(Sheet1, Inr [one_plant])] \<noteq> ([] :: (ustr \<times> (py_error + measurement list)) list)"
    by simp
  have t: "map snd [(Sheet1, Inr [one_plant] :: py_error + measurement list)] = map Inr [[one_plant]]"
    by simp
  have r: "[\<lparr>hakgyo = Sheet1, cells = one_plant\<rparr>] =
      concat (map (\<lambda>(sheet, df). stamp sheet df)
        (zip (map fst [(Sheet1, Inr [one_plant] :: py_error + measurement list)]) [[one_plant]]))"
    by (simp add: stamp_def)
  have u: "Sheet1 \<notin> fst ` set SCHOOL_EC"
    by (simp add: SCHOOL_EC_def Sheet1_def songdo_def haneul_def ara_def dongsan_def)
  from growth_rows_tagged_with_sheet_name[OF f x n t r, of exact_mean] u
  have "load_growth_data (Directory [b_xlsx]) =
      Inr ([], Frame [\<lparr>hakgyo = Sheet1, cells = one_plant\<rparr>])"
    and "EC \<lparr>hakgyo = Sheet1, cells = one_plant\<rparr> = None"
    and "mean_weight exact_mean [\<lparr>hakgyo = Sheet1, cells = one_plant\<rparr>] = mean_weight exact_mean []"
    by auto
  with f x show ?thesis
    by (simp add: mean_weight_def List.map_filter_simps)
qed

section \<open>Aggregation: lemmas\<close>











subsection \<open>The example tables, evaluated\<close>






section \<open>Claims on aggregation\<close>





text \<open>
  C2 as stated fails. Evaluated on the empty growth table, the computation of \<open>best_ec\<close>
  raises: \<open>KeyError\<close> on \<open>pd.DataFrame()\<close>, which has no tag column, and \<open>ValueError\<close>
  from \<open>idxmax\<close> on a table with columns and no rows. No mean is computed on the way.
\<close>

theorem best_ec_raises_on_empty:
  "best_ec exact_mean EmptyFrame = Inl KeyError \<and> best_ec exact_mean (Frame []) = Inl ValueError"
  by (simp add: mean_weight_def idxmax_def List.map_filter_simps)

text \<open>
  C2, amended. For the empty growth table the script stops after loading
  (\<open>st.stop()\<close>), before the computation of \<open>best_ec\<close> is reached, and raises nothing;
  the computation itself, on the empty table, raises instead of returning a neutral
  result.
\<close>

theorem empty_growth_stops_the_script:
  fixes mean :: "real list \<Rightarrow> 'm::linorder option"
  assumes "empty growth_df"
  shows "script mean school_option data growth_df = Stopped \<and>
         (\<exists>e. best_ec mean growth_df = Inl e)"
proof (cases growth_df)
  case EmptyFrame
  then show ?thesis by (simp add: script_def)
next
  case (Frame rows)
  then have "rows = []" using assms by simp
  then show ?thesis using Frame
    by (simp add: script_def mean_weight_def idxmax_def List.map_filter_simps)
qed

theorem empty_growth_stops_the_script_witness:
  "empty (Frame ([] :: measurement tagged list)) \<and>
   script exact_mean None [(songdo, stamp songdo one_reading)] (Frame []) = Stopped \<and>
   best_ec exact_mean (Frame []) = Inl ValueError"
proof -
  have e: "empty (Frame ([] :: measurement tagged list))"
    by simp
  from empty_growth_stops_the_script[OF e, of exact_mean None "[(songdo, stamp songdo one_reading)]"]
  show ?thesis
    by (simp add: mean_weight_def idxmax_def List.map_filter_simps)
qed



end
